theory Spec2Isabelle
  imports Complex_Main
begin

section \<open>Numbers\<close>

text \<open>
  The deck hook (hooks/useDeckAudio.ts) computes with JavaScript numbers. A finite number
  is a \<^typ>\<open>real\<close>, a \<open>Date.now()\<close> timestamp is an \<^typ>\<open>int\<close> (milliseconds, below
  \<open>2^53\<close>, so that sums and differences of timestamps are exact). The transport and the BPM
  analysis are modelled in exact arithmetic. \<open>tapBpm\<close> is the exception: it rounds a
  quotient to one decimal, and there the rounding of the 64-bit floating-point format
  decides which tenth is stored; its divisions and its multiplication are followed by
  \<open>fl\<close>, the rounding to the nearest double. The one non-finite value that the hook can
  store in its state is the \<open>Infinity\<close> that \<open>tapBpm\<close> obtains from \<open>60000 / 0\<close>; the
  \<open>bpm\<close> field therefore has the type \<open>jsnum\<close>.
\<close>

datatype jsnum = Finite real | PosInfinity

text \<open>\<open>Math.round\<close>: the nearest integer, a tie going towards plus infinity.\<close>

definition js_round :: "real \<Rightarrow> int" where
  "js_round x = \<lfloor>x + 1 / 2\<rfloor>"

text \<open>
  The remainder operator \<open>a % b\<close> for a divisor \<open>b \<noteq> 0\<close>: the quotient is truncated
  towards zero, so the result has the sign of \<open>a\<close>. (For \<open>b = 0\<close> JavaScript yields
  \<open>NaN\<close>; the hook only divides by a track duration that is positive.)
\<close>

definition js_rem :: "real \<Rightarrow> real \<Rightarrow> real" where
  "js_rem a b = a - b * of_int (if 0 \<le> a / b then \<lfloor>a / b\<rfloor> else \<lceil>a / b\<rceil>)"

text \<open>
  Rounding to the nearest double, ties to the even significand (IEEE 754 binary64), for
  the normal range: a positive \<open>x\<close> is scaled by a power of two into \<open>[2^52, 2^53)\<close>,
  rounded to an integer there and scaled back. Overflow and subnormal numbers are not
  represented; the values that \<open>tapBpm\<close> computes stay far from both.
  \<open>unit_roundoff\<close> is the bound \<open>2^-53\<close> of the relative error.
\<close>

definition round_even :: "real \<Rightarrow> int" where
  "round_even y =
     (let f = \<lfloor>y\<rfloor>; r = y - of_int f
      in if r < 1 / 2 then f else if 1 / 2 < r then f + 1 else if even f then f else f + 1)"

function fl_big :: "real \<Rightarrow> real" where
  "fl_big x = (if 2 ^ 53 \<le> x then 2 * fl_big (x / 2) else of_int (round_even x))"
  by pat_completeness auto
termination
proof (relation "measure (\<lambda>x. nat \<lceil>x\<rceil>)")
  show "wf (measure (\<lambda>x. nat \<lceil>x\<rceil>))" by simp
next
  fix x :: real
  assume "2 ^ 53 \<le> x"
  then have x: "2 \<le> x" by simp
  then have "x / 2 \<le> x - 1" by simp
  then have "\<lceil>x / 2\<rceil> \<le> \<lceil>x - 1\<rceil>" by (rule ceiling_mono)
  also have "\<dots> = \<lceil>x\<rceil> - 1" by linarith
  finally have "\<lceil>x / 2\<rceil> < \<lceil>x\<rceil>" by simp
  moreover have "0 < \<lceil>x\<rceil>" using x by linarith
  ultimately show "(x / 2, x) \<in> measure (\<lambda>x. nat \<lceil>x\<rceil>)" by simp
qed

function fl_pos :: "real \<Rightarrow> real" where
  "fl_pos x = (if 0 < x \<and> x < 2 ^ 52 then fl_pos (x * 2) / 2 else fl_big x)"
  by pat_completeness auto
termination
proof (relation "measure (\<lambda>x. nat \<lceil>2 ^ 52 / x\<rceil>)")
  show "wf (measure (\<lambda>x. nat \<lceil>2 ^ 52 / x\<rceil>))" by simp
next
  fix x :: real
  assume a: "0 < x \<and> x < 2 ^ 52"
  define y :: real where "y = 2 ^ 52 / x"
  have y: "1 < y" using a by (simp add: y_def)
  have h: "2 ^ 52 / (x * 2) = y / 2" unfolding y_def by (simp only: divide_divide_eq_left)
  have "\<lceil>y / 2\<rceil> < \<lceil>y\<rceil>"
  proof (cases "y \<le> 2")
    case True
    then have "\<lceil>y / 2\<rceil> \<le> 1" by (simp add: ceiling_le_iff)
    moreover have "1 < \<lceil>y\<rceil>" using y by (simp add: less_ceiling_iff)
    ultimately show ?thesis by linarith
  next
    case False
    then have "y / 2 \<le> y - 1" by simp
    then have "\<lceil>y / 2\<rceil> \<le> \<lceil>y - 1\<rceil>" by (rule ceiling_mono)
    also have "\<dots> = \<lceil>y\<rceil> - 1" by linarith
    finally show ?thesis by simp
  qed
  moreover have "0 < \<lceil>y\<rceil>" using y by linarith
  ultimately have "nat \<lceil>y / 2\<rceil> < nat \<lceil>y\<rceil>" by linarith
  then have "nat \<lceil>2 ^ 52 / (x * 2)\<rceil> < nat \<lceil>2 ^ 52 / x\<rceil>"
    by (simp only: h) (simp only: y_def)
  then show "(x * 2, x) \<in> measure (\<lambda>x. nat \<lceil>2 ^ 52 / x\<rceil>)"
    by (simp only: in_measure)
qed

declare fl_big.simps [simp del] fl_pos.simps [simp del]

definition fl :: "real \<Rightarrow> real" where
  "fl x = (if x = 0 then 0 else if 0 < x then fl_pos x else - fl_pos (- x))"

definition unit_roundoff :: real where "unit_roundoff = 1 / 2 ^ 53"

text \<open>\<open>x / bpm\<close> for a finite \<open>x\<close> and a stored \<open>bpm\<close> that is not zero.\<close>

fun div_by :: "real \<Rightarrow> jsnum \<Rightarrow> real" where
  "div_by x (Finite b) = x / b"
| "div_by x PosInfinity = 0"

section \<open>The deck state\<close>

datatype FXType = NONE | ECHO | REVERB | FLANGER

text \<open>The fields of a decoded \<open>AudioBuffer\<close> that the transport reads.\<close>

record audio_buffer =
  buffer_duration :: real
  buffer_sampleRate :: real

text \<open>The \<open>AudioBufferSourceNode\<close> that \<open>play\<close> creates and starts.\<close>

record source_node =
  node_playbackRate :: real
  node_loop :: bool
  node_offset :: real

text \<open>
  One field per \<open>useState\<close> cell (lines 13--40 of the hook) and per \<open>useRef\<close> cell that
  the transport uses (the names ending in \<open>Ref\<close>). \<open>audioContextRef\<close> records whether
  the reference is non-null.
\<close>

record deck =
  isPlaying :: bool
  isLooping :: bool
  isReverse :: bool
  duration :: real
  currentTime :: real
  pitch :: real
  bend :: real
  syncRate :: real
  isWidePitch :: bool
  hotCues :: "real option list"
  isLoaded :: bool
  fileName :: "string option"
  bpm :: jsnum
  isBpmAnalyzing :: bool
  audioBuffer :: "audio_buffer option"
  activeFX :: FXType
  fxWet :: real
  audioContextRef :: bool
  sourceNodeRef :: "source_node option"
  tapTimesRef :: "int list"
  startTimeRef :: real
  pauseTimeRef :: real
  lastPlaybackRateRef :: real

text \<open>Line 26: the composed playback rate, recomputed on every render.\<close>

definition playbackRate :: "deck \<Rightarrow> real" where
  "playbackRate s = (pitch s + bend s + (syncRate s - 1)) * (if isReverse s then - 1 else 1)"

text \<open>The setters exported as \<open>setSpeed\<close> and \<open>setBendAmount\<close>, and \<open>setSyncRate\<close>.\<close>

definition setPitch :: "real \<Rightarrow> deck \<Rightarrow> deck" where
  "setPitch v s = s\<lparr>pitch := v\<rparr>"

definition setBend :: "real \<Rightarrow> deck \<Rightarrow> deck" where
  "setBend v s = s\<lparr>bend := v\<rparr>"

definition setSyncRate :: "real \<Rightarrow> deck \<Rightarrow> deck" where
  "setSyncRate v s = s\<lparr>syncRate := v\<rparr>"

definition setIsReverse :: "bool \<Rightarrow> deck \<Rightarrow> deck" where
  "setIsReverse v s = s\<lparr>isReverse := v\<rparr>"

definition toggleReverse :: "deck \<Rightarrow> deck" where
  "toggleReverse s = setIsReverse (\<not> isReverse s) s"

definition toggleLoop :: "deck \<Rightarrow> deck" where
  "toggleLoop s =
     s\<lparr>isLooping := \<not> isLooping s,
       sourceNodeRef := map_option (\<lambda>n. n\<lparr>node_loop := \<not> isLooping s\<rparr>) (sourceNodeRef s)\<rparr>"

definition toggleWidePitch :: "deck \<Rightarrow> deck" where
  "toggleWidePitch s = s\<lparr>isWidePitch := \<not> isWidePitch s\<rparr>"

text \<open>Lines 334--339.\<close>

definition syncToBpm :: "deck \<Rightarrow> real \<Rightarrow> deck" where
  "syncToBpm s targetBpm =
     (if bpm s = Finite 0 then s
      else let ratio = div_by targetBpm (bpm s)
           in s\<lparr>syncRate := ratio, pitch := 1\<rparr>)"

section \<open>The sample clock\<close>

text \<open>
  The normalisation block that lines 166--169, 301--304 and 385--388 share:
  \<^verbatim>\<open>if (duration > 0) { while (p < 0) p += duration; p = p % duration; }\<close>
  as one tail-recursive function; the guard on the duration is re-read at every turn of the
  loop, which changes nothing since the duration is constant.
\<close>

function normalize :: "real \<Rightarrow> real \<Rightarrow> real" where
  "normalize p d =
     (if d > 0 then (if p < 0 then normalize (p + d) d else js_rem p d) else p)"
  by pat_completeness auto
termination
proof (relation "measure (\<lambda>(p, d). nat \<lceil>- (p / d)\<rceil>)")
  show "wf (measure (\<lambda>(p, d). nat \<lceil>- (p / d)\<rceil>))" by simp
next
  fix p d :: real
  assume d: "0 < d" and p: "p < 0"
  have "(p + d) / d = p / d + 1"
    using d by (simp add: add_divide_distrib)
  then have "- ((p + d) / d) = - (p / d) - 1"
    by linarith
  then have e: "\<lceil>- ((p + d) / d)\<rceil> = \<lceil>- (p / d)\<rceil> - 1"
    by (simp only: ceiling_diff_one)
  have "0 < - (p / d)" using d p by (simp add: divide_neg_pos)
  then have "0 < \<lceil>- (p / d)\<rceil>" by linarith
  then have "nat \<lceil>- ((p + d) / d)\<rceil> < nat \<lceil>- (p / d)\<rceil>"
    using e by linarith
  then show "((p + d, d), (p, d)) \<in> measure (\<lambda>(p, d). nat \<lceil>- (p / d)\<rceil>)"
    by simp
qed

declare normalize.simps [simp del]

text \<open>
  Lines 155--179: the effect that React runs after a render in which the playback rate,
  the duration or \<open>isPlaying\<close> changed. \<open>now\<close> is \<open>ctx.currentTime\<close> when it runs.
\<close>

definition rateEffect :: "deck \<Rightarrow> real \<Rightarrow> deck" where
  "rateEffect s now =
     (let s' =
        (if isPlaying s \<and> sourceNodeRef s \<noteq> None \<and> audioContextRef s then
           let prevRate = lastPlaybackRateRef s;
               elapsed = now - startTimeRef s;
               newPos = normalize (pauseTimeRef s + elapsed * prevRate) (duration s)
           in s\<lparr>pauseTimeRef := newPos, startTimeRef := now,
                sourceNodeRef :=
                  map_option (\<lambda>n. n\<lparr>node_playbackRate := playbackRate s\<rparr>) (sourceNodeRef s)\<rparr>
         else s)
      in s'\<lparr>lastPlaybackRateRef := playbackRate s\<rparr>)"

text \<open>Lines 265--286. \<open>now\<close> is \<open>ctx.currentTime\<close> during the call.\<close>

definition play :: "deck \<Rightarrow> real \<Rightarrow> deck" where
  "play s now =
     (case audioBuffer s of
        None \<Rightarrow> s
      | Some buf \<Rightarrow>
          if \<not> audioContextRef s then s
          else
            let offset = js_rem (pauseTimeRef s) (buffer_duration buf);
                startOffset = (if offset < 0 then buffer_duration buf + offset else offset)
            in s\<lparr>startTimeRef := now - startOffset,
                 sourceNodeRef :=
                   Some \<lparr>node_playbackRate = playbackRate s, node_loop = isLooping s,
                         node_offset = startOffset\<rparr>,
                 isPlaying := True\<rparr>)"

text \<open>Lines 288--309.\<close>

definition pause :: "deck \<Rightarrow> real \<Rightarrow> deck" where
  "pause s now =
     (if sourceNodeRef s \<noteq> None \<and> isPlaying s \<and> audioContextRef s then
        let elapsed = now - startTimeRef s;
            newPos = normalize (pauseTimeRef s + elapsed * playbackRate s) (duration s)
        in s\<lparr>sourceNodeRef := None, pauseTimeRef := newPos, isPlaying := False\<rparr>
      else s)"

definition togglePlay :: "deck \<Rightarrow> real \<Rightarrow> deck" where
  "togglePlay s now = (if isPlaying s then pause s now else play s now)"

text \<open>
  Lines 326--332. \<open>pause\<close> and \<open>play\<close> run inside the same handler, so both read the
  same \<open>ctx.currentTime\<close>; the state updates they queue are applied in order.
\<close>

definition seek :: "deck \<Rightarrow> real \<Rightarrow> real \<Rightarrow> deck" where
  "seek s time now =
     (let wasPlaying = isPlaying s;
          s1 = (if wasPlaying then pause s now else s);
          s2 = s1\<lparr>pauseTimeRef := time, currentTime := time\<rparr>
      in if wasPlaying then play s2 now else s2)"

text \<open>Lines 379--395: one turn of the display loop, at \<open>ctx.currentTime = now\<close>.\<close>

definition updateLoop :: "deck \<Rightarrow> real \<Rightarrow> deck" where
  "updateLoop s now =
     (if isPlaying s \<and> audioContextRef s then
        let elapsed = now - startTimeRef s;
            calculatedTime =
              normalize (pauseTimeRef s + elapsed * playbackRate s) (duration s)
        in s\<lparr>currentTime := calculatedTime\<rparr>
      else if \<not> isPlaying s then s\<lparr>currentTime := pauseTimeRef s\<rparr>
      else s)"

section \<open>Loading a track\<close>

datatype error = DecodeError | AnalysisFailure

text \<open>
  Lines 229--263. \<open>loadFile\<close> is asynchronous: \<open>loadFile_begin\<close> is the part before the
  first \<open>await\<close>, \<open>loadFile_decoded\<close> the continuation after a successful decode,
  \<open>loadFile_failed\<close> the \<open>catch\<close> block. \<open>loadFile\<close> composes them for a load that no
  other event interleaves with; its last argument is the outcome of decoding.
\<close>

definition loadFile_begin :: "deck \<Rightarrow> string \<Rightarrow> deck" where
  "loadFile_begin s name =
     s\<lparr>isPlaying := False, fileName := Some name, bpm := Finite 128, isBpmAnalyzing := True\<rparr>"

definition loadFile_decoded :: "deck \<Rightarrow> audio_buffer \<Rightarrow> deck" where
  "loadFile_decoded s decodedBuffer =
     s\<lparr>audioBuffer := Some decodedBuffer, duration := buffer_duration decodedBuffer,
       isLoaded := True, currentTime := 0, pauseTimeRef := 0,
       hotCues := [None, None, None], syncRate := 1, isReverse := False,
       lastPlaybackRateRef := 1\<rparr>"

definition loadFile_failed :: "deck \<Rightarrow> deck" where
  "loadFile_failed s = s\<lparr>isBpmAnalyzing := False\<rparr>"

definition loadFile :: "deck \<Rightarrow> string \<Rightarrow> error + audio_buffer \<Rightarrow> deck" where
  "loadFile s name decoded =
     (if \<not> audioContextRef s then s
      else case decoded of
             Inl e \<Rightarrow> loadFile_failed (loadFile_begin s name)
           | Inr decodedBuffer \<Rightarrow> loadFile_decoded (loadFile_begin s name) decodedBuffer)"

text \<open>Lines 250--257: the two ways the pending \<open>detectBpm\<close> promise settles.\<close>

definition bpmDetected :: "deck \<Rightarrow> real \<Rightarrow> deck" where
  "bpmDetected s detectedBpm = s\<lparr>bpm := Finite detectedBpm, isBpmAnalyzing := False\<rparr>"

definition bpmDetectionFailed :: "deck \<Rightarrow> deck" where
  "bpmDetectionFailed s = s\<lparr>isBpmAnalyzing := False\<rparr>"

section \<open>Tap tempo\<close>

text \<open>Lines 219--222: the differences of neighbouring timestamps.\<close>

fun intervals :: "int list \<Rightarrow> int list" where
  "intervals (a # b # ts) = (b - a) # intervals (b # ts)"
| "intervals ts = []"

text \<open>
  Lines 223--225, in double arithmetic. The sum of the intervals is an exact integer; the
  division by their number, the division of \<open>60000\<close> by the average, the multiplication
  by 10 and the final division by 10 each round to the nearest double; \<open>Math.round\<close> is
  exact. \<open>60000\<close> divided by an average of zero is \<open>Infinity\<close>, which \<open>Math.round\<close> and
  the division by 10 leave as it is.
\<close>

definition avgInterval :: "int list \<Rightarrow> real" where
  "avgInterval ts = fl (of_int (sum_list (intervals ts)) / of_nat (length (intervals ts)))"

definition newBpm :: "int list \<Rightarrow> jsnum" where
  "newBpm ts =
     (if avgInterval ts = 0 then PosInfinity else Finite (fl (60000 / avgInterval ts)))"

fun round_tenth :: "jsnum \<Rightarrow> jsnum" where
  "round_tenth (Finite x) = Finite (fl (of_int (js_round (fl (x * 10))) / 10))"
| "round_tenth PosInfinity = PosInfinity"

text \<open>Lines 209--227. \<open>now\<close> is \<open>Date.now()\<close>.\<close>

definition tapBpm :: "deck \<Rightarrow> int \<Rightarrow> deck" where
  "tapBpm s now =
     (let times = tapTimesRef s in
      if times \<noteq> [] \<and> now - last times > 2000 then s\<lparr>tapTimesRef := [now]\<rparr>
      else
        let pushed = times @ [now];
            times' = (if length pushed > 4 then tl pushed else pushed)
        in if length times' \<ge> 2
           then s\<lparr>tapTimesRef := times', bpm := round_tenth (newBpm times')\<rparr>
           else s\<lparr>tapTimesRef := times'\<rparr>)"


text \<open>
  A run of taps, one \<open>tapBpm\<close> call per timestamp; the condition that no tap of the run
  comes more than 2000 ms after the tap before it (\<open>buf\<close> is the buffer before the run);
  the last \<open>n\<close> elements of a list; and the condition that the timestamps of a list do not
  decrease and are at most 2000 ms apart, as the taps read from a clock that runs forward
  are.
\<close>

fun taps :: "deck \<Rightarrow> int list \<Rightarrow> deck" where
  "taps s [] = s"
| "taps s (t # ts) = taps (tapBpm s t) ts"

fun gaps_ok :: "int list \<Rightarrow> int list \<Rightarrow> bool" where
  "gaps_ok buf [] = True"
| "gaps_ok buf (t # ts) = ((buf = [] \<or> t - last buf \<le> 2000) \<and> gaps_ok [t] ts)"

definition most_recent :: "nat \<Rightarrow> 'a list \<Rightarrow> 'a list" where
  "most_recent n xs = drop (length xs - n) xs"

fun steady :: "int list \<Rightarrow> bool" where
  "steady (a # b # ts) = (0 \<le> b - a \<and> b - a \<le> 2000 \<and> steady (b # ts))"
| "steady ts = True"

section \<open>BPM detection\<close>

text \<open>
  \<open>detectBpm\<close> (utils/bpm) first copies a slice of the buffer and renders it through a
  low-pass filter in an offline audio context; that part runs in the Web Audio
  implementation. Its outcome is an input of the model, \<open>rendered\<close>: the samples of the
  rendered buffer, or the exception that one of these steps threw. The analysis that
  follows is modelled in full.

  The sampled maximum: \<open>for (i = 0; i < data.length; i += 1000)\<close>.
\<close>

fun sample_max :: "real list \<Rightarrow> real \<Rightarrow> real" where
  "sample_max [] maxAmp = maxAmp"
| "sample_max (x # xs) maxAmp =
     sample_max (drop 999 xs) (if \<bar>x\<bar> > maxAmp then \<bar>x\<bar> else maxAmp)"

text \<open>
  Peak picking: one turn of the loop per sample, \<open>i\<close> is the index of the head of the list
  and \<open>lastPeak\<close> the index of the last accepted peak (initially \<open>-minDistance\<close>).
\<close>

fun find_peaks :: "real \<Rightarrow> real \<Rightarrow> real list \<Rightarrow> nat \<Rightarrow> real \<Rightarrow> nat list" where
  "find_peaks threshold minDistance [] i lastPeak = []"
| "find_peaks threshold minDistance (x # xs) i lastPeak =
     (if x > threshold \<and> real i - lastPeak > minDistance
      then i # find_peaks threshold minDistance xs (Suc i) (real i)
      else find_peaks threshold minDistance xs (Suc i) lastPeak)"

definition threshold_of :: "real list \<Rightarrow> real" where
  "threshold_of data = sample_max data 0 * 0.35"

definition peaks_of :: "real list \<Rightarrow> real \<Rightarrow> nat list" where
  "peaks_of data sampleRate =
     (let minDistance = 0.3 * sampleRate
      in find_peaks (threshold_of data) minDistance data 0 (- minDistance))"

text \<open>
  The histogram is a JavaScript object keyed by the rounded interval; \<open>hist_add\<close> is
  \<open>histogram[rounded] = (histogram[rounded] || 0) + 1\<close> on the list of its properties in
  creation order.
\<close>

definition rounded :: "int \<Rightarrow> int" where
  "rounded interval = js_round (of_int interval / 500) * 500"

fun hist_add :: "int \<Rightarrow> (int \<times> nat) list \<Rightarrow> (int \<times> nat) list" where
  "hist_add k [] = [(k, 1)]"
| "hist_add k ((k', c) # h) = (if k = k' then (k', c + 1) # h else (k', c) # hist_add k h)"

definition histogram_of :: "int list \<Rightarrow> (int \<times> nat) list" where
  "histogram_of ivs = foldl (\<lambda>h interval. hist_add (rounded interval) h) [] ivs"

text \<open>
  \<open>Object.entries\<close> lists the keys that are array indices (integers from 0 to
  \<open>2^32 - 2\<close>) in ascending order, then the other keys in creation order. \<open>parseInt\<close>
  gives back the integer that the key was made from.
\<close>

definition is_index :: "int \<times> nat \<Rightarrow> bool" where
  "is_index e = (0 \<le> fst e \<and> fst e < 4294967295)"

definition entries :: "(int \<times> nat) list \<Rightarrow> (int \<times> nat) list" where
  "entries h = sort_key fst (filter is_index h) @ filter (\<lambda>e. \<not> is_index e) h"

fun pick_best :: "(int \<times> nat) list \<Rightarrow> nat \<Rightarrow> int \<Rightarrow> int" where
  "pick_best [] maxCount bestInterval = bestInterval"
| "pick_best ((interval, count) # es) maxCount bestInterval =
     (if count > maxCount then pick_best es count interval
      else pick_best es maxCount bestInterval)"

definition bestInterval_of :: "nat list \<Rightarrow> int" where
  "bestInterval_of peaks = pick_best (entries (histogram_of (intervals (map int peaks)))) 0 0"

text \<open>
  The two normalisation loops. \<open>while (bpm < 70) bpm *= 2\<close> does not end for a value that
  is not positive, so it is a partial function: \<open>None\<close> stands for a loop that runs
  forever. \<open>while (bpm > 180) bpm /= 2\<close> always ends.
\<close>

partial_function (option) double_up :: "real \<Rightarrow> real option" where
  "double_up b = (if b < 70 then double_up (b * 2) else Some b)"

function halve_down :: "real \<Rightarrow> real" where
  "halve_down b = (if b > 180 then halve_down (b / 2) else b)"
  by pat_completeness auto
termination
proof (relation "measure (\<lambda>b. nat \<lceil>b\<rceil>)")
  show "wf (measure (\<lambda>b. nat \<lceil>b\<rceil>))" by simp
next
  fix b :: real
  assume "180 < b"
  then have "b / 2 \<le> b - 90" by simp
  then have "\<lceil>b / 2\<rceil> \<le> \<lceil>b - 90\<rceil>" by (rule ceiling_mono)
  also have "\<dots> = \<lceil>b\<rceil> - 90" by linarith
  finally have "\<lceil>b / 2\<rceil> < \<lceil>b\<rceil>" by simp
  moreover have "0 < \<lceil>b\<rceil>" using \<open>180 < b\<close> by linarith
  ultimately show "(b / 2, b) \<in> measure (\<lambda>b. nat \<lceil>b\<rceil>)" by simp
qed

declare halve_down.simps [simp del]

text \<open>Lines 46--105, on the rendered samples.\<close>

definition analyse :: "real list \<Rightarrow> real \<Rightarrow> real option" where
  "analyse data sampleRate =
     (let peaks = peaks_of data sampleRate in
      if length peaks < 10 then Some 128
      else
        let bestInterval = bestInterval_of peaks in
        if bestInterval = 0 then Some 128
        else
          case double_up (60 / (of_int bestInterval / sampleRate)) of
            None \<Rightarrow> None
          | Some doubled \<Rightarrow> Some (of_int (js_round (halve_down doubled))))"

text \<open>
  The outcome of the promise: \<open>None\<close> when it never settles, \<open>Some (Inl e)\<close> when it
  rejects with \<open>e\<close>, \<open>Some (Inr v)\<close> when it resolves with \<open>v\<close>. \<open>detectBpm_try\<close> is the
  \<open>try\<close> block, \<open>detectBpm\<close> adds the \<open>catch\<close> block of lines 107--110.
\<close>

definition detectBpm_try :: "error + real list \<Rightarrow> real \<Rightarrow> (error + real) option" where
  "detectBpm_try rendered sampleRate =
     (case rendered of
        Inl e \<Rightarrow> Some (Inl e)
      | Inr data \<Rightarrow> map_option Inr (analyse data sampleRate))"

definition detectBpm :: "error + real list \<Rightarrow> real \<Rightarrow> (error + real) option" where
  "detectBpm rendered sampleRate =
     (case detectBpm_try rendered sampleRate of
        None \<Rightarrow> None
      | Some (Inl e) \<Rightarrow> Some (Inr 128)
      | Some (Inr v) \<Rightarrow> Some (Inr v))"

section \<open>Scrubbing\<close>

text \<open>
  \<open>handleScrubMove\<close> of the deck component (components/Deck.tsx, lines 209--225), for a
  scrub in progress on the mounted waveform canvas: \<open>deltaX\<close> is the pointer movement in
  pixels since the last event and \<open>canvasWidth\<close> the width of the canvas, which is
  positive. \<open>handleScrubStart\<close> has paused the deck before.
\<close>

definition handleScrubMove :: "deck \<Rightarrow> real \<Rightarrow> real \<Rightarrow> real \<Rightarrow> deck" where
  "handleScrubMove s deltaX canvasWidth now =
     (if duration s = 0 then s
      else
        let zoomSeconds = 4;
            pixelsPerSecond = canvasWidth / zoomSeconds;
            newTime = max 0 (min (duration s) (currentTime s - deltaX / pixelsPerSecond))
        in seek s newTime now)"

section \<open>Sample states\<close>

text \<open>The state of a freshly mounted hook: the \<open>useState\<close> and \<open>useRef\<close> initial values,
  with the audio context obtained by the mount effect (lines 77--79).\<close>

definition initialDeck :: deck where
  "initialDeck =
     \<lparr>isPlaying = False, isLooping = False, isReverse = False, duration = 0, currentTime = 0,
      pitch = 1, bend = 0, syncRate = 1, isWidePitch = False, hotCues = [None, None, None],
      isLoaded = False, fileName = None, bpm = Finite 128, isBpmAnalyzing = False,
      audioBuffer = None, activeFX = NONE, fxWet = 0, audioContextRef = True,
      sourceNodeRef = None, tapTimesRef = [], startTimeRef = 0, pauseTimeRef = 0,
      lastPlaybackRateRef = 1\<rparr>"

text \<open>
  A 100 second track, the deck after loading it, after starting it at context time 0, and
  after pausing it again at context time 10 (each followed by the effect of lines 155--179,
  which React runs because \<open>isPlaying\<close> changed); and a playing deck with every control moved.
\<close>

definition sampleBuffer :: audio_buffer where
  "sampleBuffer = \<lparr>buffer_duration = 100, buffer_sampleRate = 44100\<rparr>"

definition loadedDeck :: deck where
  "loadedDeck = loadFile initialDeck ''track.mp3'' (Inr sampleBuffer)"

definition playingDeck :: deck where
  "playingDeck = rateEffect (play loadedDeck 0) 0"

definition pausedDeck :: deck where
  "pausedDeck = rateEffect (pause playingDeck 10) 10"

definition tweakedDeck :: deck where
  "tweakedDeck =
     playingDeck\<lparr>pitch := 21 / 20, bend := 1 / 10, isLooping := True, activeFX := ECHO,
       fxWet := 1 / 2, isReverse := True, syncRate := 2, hotCues := [Some 5, None, Some 7],
       currentTime := 42\<rparr>"



section \<open>Normalisation is the remainder of flooring division\<close>

lemma normalize_floor:
  "0 < d \<Longrightarrow> normalize p d = p - d * of_int \<lfloor>p / d\<rfloor>"
proof (induction p d rule: normalize.induct)
  case (1 p d)
  show ?case
  proof (cases "p < 0")
    case True
    have "\<lfloor>(p + d) / d\<rfloor> = \<lfloor>p / d\<rfloor> + 1"
      using "1.prems" by (simp add: add_divide_distrib)
    then have "normalize (p + d) d = p - d * of_int \<lfloor>p / d\<rfloor>"
      using "1.IH" [OF "1.prems" True] "1.prems" by (simp add: algebra_simps)
    then show ?thesis
      using True "1.prems" by (subst normalize.simps) simp
  next
    case False
    then have "0 \<le> p / d" using "1.prems" by simp
    then show ?thesis
      using False "1.prems" by (subst normalize.simps) (simp add: js_rem_def)
  qed
qed

lemma normalize_nonpositive_duration: "\<not> 0 < d \<Longrightarrow> normalize p d = p"
  by (subst normalize.simps) simp

lemma normalize_range:
  assumes "0 < d"
  shows "0 \<le> normalize p d \<and> normalize p d < d"
proof -
  have "of_int \<lfloor>p / d\<rfloor> * d \<le> p"
    using of_int_floor_le [of "p / d"] assms by (simp only: pos_le_divide_eq)
  then have a: "d * of_int \<lfloor>p / d\<rfloor> \<le> p"
    by (simp only: mult.commute)
  have "p / d < of_int \<lfloor>p / d\<rfloor> + 1" by linarith
  then have "p < (of_int \<lfloor>p / d\<rfloor> + 1) * d"
    using assms by (simp only: pos_divide_less_eq)
  then have b: "p < d * of_int \<lfloor>p / d\<rfloor> + d"
    by (simp only: algebra_simps)
  show ?thesis using a b by (simp add: normalize_floor [OF assms])
qed

lemma normalize_add_normalize:
  "normalize (normalize x d + y) d = normalize (x + y) d"
proof (cases "0 < d")
  case True
  define k where "k = \<lfloor>x / d\<rfloor>"
  define m where "m = \<lfloor>(x - d * of_int k + y) / d\<rfloor>"
  define n where "n = \<lfloor>(x + y) / d\<rfloor>"
  have "(x - d * of_int k + y) / d = (x + y) / d - of_int k"
    using True by (simp add: field_simps)
  then have "m = n - k"
    unfolding m_def n_def by (simp only: floor_diff_of_int)
  then have eq: "(of_int m :: real) = of_int n - of_int k"
    by simp
  have "x - d * of_int k + y - d * of_int m = x + y - d * of_int n"
    by (simp only: eq) (simp add: algebra_simps)
  then show ?thesis
    using True unfolding m_def n_def k_def by (simp add: normalize_floor)
next
  case False
  then show ?thesis by (simp add: normalize_nonpositive_duration)
qed

lemma normalize_idem: "normalize (normalize x d) d = normalize x d"
  using normalize_add_normalize [of x d 0] by simp

section \<open>Facts about the handlers\<close>

lemma loadedDeck_eq:
  "loadedDeck = initialDeck\<lparr>fileName := Some ''track.mp3'', isBpmAnalyzing := True,
      audioBuffer := Some sampleBuffer, duration := 100, isLoaded := True\<rparr>"
  by (simp add: loadedDeck_def loadFile_def loadFile_begin_def loadFile_decoded_def
      initialDeck_def sampleBuffer_def)

lemma playingDeck_eq:
  "playingDeck = loadedDeck\<lparr>isPlaying := True,
     sourceNodeRef := Some \<lparr>node_playbackRate = 1, node_loop = False, node_offset = 0\<rparr>\<rparr>"
  by (simp add: playingDeck_def loadedDeck_eq rateEffect_def play_def initialDeck_def
      sampleBuffer_def playbackRate_def js_rem_def normalize.simps Let_def)

lemma pausedDeck_eq:
  "pausedDeck = loadedDeck\<lparr>pauseTimeRef := 10\<rparr>"
  by (simp add: pausedDeck_def playingDeck_eq loadedDeck_eq rateEffect_def pause_def initialDeck_def
      sampleBuffer_def playbackRate_def js_rem_def normalize.simps Let_def)

lemma tweakedDeck_eq:
  "tweakedDeck =
     initialDeck\<lparr>fileName := Some ''track.mp3'', isBpmAnalyzing := True,
       audioBuffer := Some sampleBuffer, duration := 100, isLoaded := True, isPlaying := True,
       sourceNodeRef := Some \<lparr>node_playbackRate = 1, node_loop = False, node_offset = 0\<rparr>,
       pitch := 21 / 20, bend := 1 / 10, isLooping := True, activeFX := ECHO,
       fxWet := 1 / 2, isReverse := True, syncRate := 2, hotCues := [Some 5, None, Some 7],
       currentTime := 42\<rparr>"
  by (simp add: tweakedDeck_def playingDeck_eq loadedDeck_eq)

lemmas sample_simps = playingDeck_eq loadedDeck_eq initialDeck_def sampleBuffer_def
  playbackRate_def js_rem_def normalize.simps Let_def

lemma playbackRate_frame:
  "playbackRate (s\<lparr>pauseTimeRef := a\<rparr>) = playbackRate s"
  "playbackRate (s\<lparr>startTimeRef := b\<rparr>) = playbackRate s"
  "playbackRate (s\<lparr>sourceNodeRef := c\<rparr>) = playbackRate s"
  "playbackRate (s\<lparr>lastPlaybackRateRef := e\<rparr>) = playbackRate s"
  "playbackRate (s\<lparr>currentTime := f\<rparr>) = playbackRate s"
  "playbackRate (s\<lparr>isPlaying := g\<rparr>) = playbackRate s"
  by (simp_all add: playbackRate_def)

lemma playbackRate_toggleReverse: "playbackRate (toggleReverse s) = - playbackRate s"
  by (simp add: playbackRate_def toggleReverse_def setIsReverse_def)

lemma toggleReverse_frame:
  "pauseTimeRef (toggleReverse s) = pauseTimeRef s"
  "startTimeRef (toggleReverse s) = startTimeRef s"
  "lastPlaybackRateRef (toggleReverse s) = lastPlaybackRateRef s"
  "isPlaying (toggleReverse s) = isPlaying s"
  "sourceNodeRef (toggleReverse s) = sourceNodeRef s"
  "audioContextRef (toggleReverse s) = audioContextRef s"
  "duration (toggleReverse s) = duration s"
  by (simp_all add: toggleReverse_def setIsReverse_def)

lemma rateEffect_playing:
  assumes "isPlaying s" and "sourceNodeRef s \<noteq> None" and "audioContextRef s"
  shows "rateEffect s now =
    s\<lparr>pauseTimeRef :=
         normalize (pauseTimeRef s + (now - startTimeRef s) * lastPlaybackRateRef s) (duration s),
      startTimeRef := now,
      sourceNodeRef := map_option (\<lambda>n. n\<lparr>node_playbackRate := playbackRate s\<rparr>) (sourceNodeRef s),
      lastPlaybackRateRef := playbackRate s\<rparr>"
  using assms by (simp add: rateEffect_def Let_def)

lemma updateLoop_playing:
  assumes "isPlaying s" and "audioContextRef s"
  shows "currentTime (updateLoop s now)
    = normalize (pauseTimeRef s + (now - startTimeRef s) * playbackRate s) (duration s)"
  using assms by (simp add: updateLoop_def Let_def)

section \<open>The error of rounding to a double\<close>

lemma round_even_close: "\<bar>of_int (round_even y) - y\<bar> \<le> 1 / 2"
proof -
  have "of_int \<lfloor>y\<rfloor> \<le> y" "y < of_int \<lfloor>y\<rfloor> + 1" by linarith+
  then show ?thesis by (auto simp: round_even_def Let_def)
qed

lemma fl_big_error: "2 ^ 52 \<le> x \<Longrightarrow> \<bar>fl_big x - x\<bar> \<le> x * unit_roundoff"
proof (induction x rule: fl_big.induct)
  case (1 x)
  show ?case
  proof (cases "2 ^ 53 \<le> x")
    case True
    then have "2 ^ 52 \<le> x / 2" by simp
    from "1.IH" [OF True this] have "\<bar>fl_big (x / 2) - x / 2\<bar> \<le> x / 2 * unit_roundoff" .
    then have "\<bar>2 * fl_big (x / 2) - x\<bar> \<le> x * unit_roundoff" by linarith
    then show ?thesis using True by (subst fl_big.simps) simp
  next
    case False
    have "1 / 2 \<le> x * unit_roundoff" using "1.prems" by (simp add: unit_roundoff_def)
    then have "\<bar>of_int (round_even x) - x\<bar> \<le> x * unit_roundoff"
      using round_even_close [of x] by linarith
    then show ?thesis using False by (subst fl_big.simps) simp
  qed
qed

lemma fl_pos_error: "0 < x \<Longrightarrow> \<bar>fl_pos x - x\<bar> \<le> x * unit_roundoff"
proof (induction x rule: fl_pos.induct)
  case (1 x)
  show ?case
  proof (cases "x < 2 ^ 52")
    case True
    then have c: "0 < x \<and> x < 2 ^ 52" using "1.prems" by simp
    have "0 < x * 2" using "1.prems" by simp
    from "1.IH" [OF c this] have "\<bar>fl_pos (x * 2) - x * 2\<bar> \<le> x * 2 * unit_roundoff" .
    then have "\<bar>fl_pos (x * 2) / 2 - x\<bar> \<le> x * unit_roundoff" by linarith
    then show ?thesis using c by (subst fl_pos.simps) simp
  next
    case False
    then have "2 ^ 52 \<le> x" by simp
    then show ?thesis using fl_big_error False by (subst fl_pos.simps) simp
  qed
qed

lemma fl_error: "\<bar>fl x - x\<bar> \<le> \<bar>x\<bar> * unit_roundoff"
proof -
  consider "x = 0" | "0 < x" | "x < 0" by linarith
  then show ?thesis
  proof cases
    case 1
    then show ?thesis by (simp add: fl_def)
  next
    case 2
    then show ?thesis using fl_pos_error [of x] by (simp add: fl_def)
  next
    case 3
    then show ?thesis using fl_pos_error [of "- x"] by (simp add: fl_def)
  qed
qed

lemma fl_bounds:
  assumes "0 < x"
  shows "x * (1 - unit_roundoff) \<le> fl x" and "fl x \<le> x * (1 + unit_roundoff)" and "0 < fl x"
proof -
  have "\<bar>fl x - x\<bar> \<le> x * unit_roundoff" using fl_error [of x] assms by simp
  then have e: "fl x - x \<le> x * unit_roundoff" "x - fl x \<le> x * unit_roundoff" by linarith+
  have d: "x * (1 - unit_roundoff) = x - x * unit_roundoff"
    "x * (1 + unit_roundoff) = x + x * unit_roundoff"
    by (simp_all add: algebra_simps)
  show a: "x * (1 - unit_roundoff) \<le> fl x" unfolding d using e by linarith
  show "fl x \<le> x * (1 + unit_roundoff)" unfolding d using e by linarith
  have "0 < x * (1 - unit_roundoff)" using assms by (simp add: unit_roundoff_def)
  then show "0 < fl x" using a by linarith
qed

lemma chain_bounds:
  fixes a A B C p m :: real
  assumes a: "0 < a" and m: "0 < m" and p: "0 < p"
    and A: "a * m \<le> A" "A \<le> a * p"
    and B: "60000 / A * m \<le> B" "B \<le> 60000 / A * p"
    and C: "B * 10 * m \<le> C" "C \<le> B * 10 * p"
  shows "600000 / a * (m * m / p) \<le> C" and "C \<le> 600000 / a * (p * p / m)"
proof -
  have Apos: "0 < A"
  proof -
    have "0 < a * m" using a m by simp
    then show ?thesis using A(1) by linarith
  qed
  have hi1: "60000 / A \<le> 60000 / (a * m)"
    by (rule divide_left_mono [OF A(1)]) (use a m Apos in simp_all)
  have lo1: "60000 / (a * p) \<le> 60000 / A"
    by (rule divide_left_mono [OF A(2)]) (use a p Apos in simp_all)
  have "B \<le> 60000 / (a * m) * p"
    using mult_right_mono [OF hi1, of p] p B(2) by linarith
  then have "B * 10 \<le> 60000 / (a * m) * p * 10"
    by simp
  then have "B * 10 * p \<le> 60000 / (a * m) * p * 10 * p"
    using p by (simp only: mult_le_cancel_right_pos)
  then have "C \<le> 60000 / (a * m) * p * 10 * p" using C(2) by linarith
  moreover have "60000 / (a * m) * p * 10 * p = 600000 / a * (p * p / m)"
    using a m by (simp add: field_simps)
  ultimately show "C \<le> 600000 / a * (p * p / m)" by simp
  have "60000 / (a * p) * m \<le> B"
    using mult_right_mono [OF lo1, of m] m B(1) by linarith
  then have "60000 / (a * p) * m * 10 \<le> B * 10"
    by simp
  then have "60000 / (a * p) * m * 10 * m \<le> B * 10 * m"
    using m by (simp only: mult_le_cancel_right_pos)
  then have "60000 / (a * p) * m * 10 * m \<le> C" using C(1) by linarith
  moreover have "60000 / (a * p) * m * 10 * m = 600000 / a * (m * m / p)"
    using a p by (simp add: field_simps)
  ultimately show "600000 / a * (m * m / p) \<le> C" by simp
qed

lemma chain_error:
  assumes a: "0 < a"
  shows "\<bar>fl (fl (60000 / fl a) * 10) - 600000 / a\<bar> \<le> 600000 / a * (4 * unit_roundoff)"
proof -
  define m where "m = 1 - unit_roundoff"
  define p where "p = 1 + unit_roundoff"
  define t where "t = 600000 / a"
  have mp: "0 < m" "0 < p" by (simp_all add: m_def p_def unit_roundoff_def)
  have A: "a * m \<le> fl a" "fl a \<le> a * p" "0 < fl a"
    unfolding m_def p_def using fl_bounds [OF a] by simp_all
  have b: "0 < 60000 / fl a" using A(3) by simp
  have B: "60000 / fl a * m \<le> fl (60000 / fl a)" "fl (60000 / fl a) \<le> 60000 / fl a * p"
    "0 < fl (60000 / fl a)"
    unfolding m_def p_def using fl_bounds [OF b] by simp_all
  have c: "0 < fl (60000 / fl a) * 10" using B(3) by simp
  have C: "fl (60000 / fl a) * 10 * m \<le> fl (fl (60000 / fl a) * 10)"
    "fl (fl (60000 / fl a) * 10) \<le> fl (60000 / fl a) * 10 * p"
    unfolding m_def p_def using fl_bounds [OF c] by simp_all
  have bounds: "t * (m * m / p) \<le> fl (fl (60000 / fl a) * 10)"
    "fl (fl (60000 / fl a) * 10) \<le> t * (p * p / m)"
    unfolding t_def using chain_bounds [OF a mp A(1,2) B(1,2) C] by simp_all
  have tpos: "0 < t" using a by (simp add: t_def)
  have "p * p / m \<le> 1 + 4 * unit_roundoff" "1 - 4 * unit_roundoff \<le> m * m / p"
    by (simp_all add: m_def p_def unit_roundoff_def)
  then have "t * (p * p / m) \<le> t * (1 + 4 * unit_roundoff)"
    "t * (1 - 4 * unit_roundoff) \<le> t * (m * m / p)"
    using tpos by (simp_all only: mult_le_cancel_left_pos)
  then have lohi: "t * (1 - 4 * unit_roundoff) \<le> fl (fl (60000 / fl a) * 10)"
    "fl (fl (60000 / fl a) * 10) \<le> t * (1 + 4 * unit_roundoff)"
    using bounds by (meson order_trans)+
  define Cv where "Cv = fl (fl (60000 / fl a) * 10)"
  define e where "e = t * (4 * unit_roundoff)"
  have "t * (1 - 4 * unit_roundoff) = t - e" "t * (1 + 4 * unit_roundoff) = t + e"
    by (simp_all add: algebra_simps e_def)
  then have "t - e \<le> Cv" "Cv \<le> t + e"
    using lohi by (simp_all only: Cv_def)
  then have "\<bar>Cv - t\<bar> \<le> e" by linarith
  then have "\<bar>fl (fl (60000 / fl a) * 10) - t\<bar> \<le> t * (4 * unit_roundoff)"
    by (simp only: Cv_def e_def)
  then show ?thesis by (simp only: t_def)
qed


lemma half_gap_below:
  fixes t :: real and k T span :: int
  assumes span: "0 < span" "span \<le> 6000" and T: "t * (2 * of_int span) = of_int T"
    and lt: "t < of_int k - 1 / 2"
  shows "t + 1 / 12000 \<le> of_int k - 1 / 2"
proof -
  have pos: "(0::real) < 2 * of_int span" using span(1) by simp
  have "t * (2 * of_int span) < (of_int k - 1 / 2) * (2 * of_int span)"
    using lt pos by (rule mult_strict_right_mono)
  also have "(of_int k - 1 / 2) * (2 * of_int span) = (of_int ((2 * k - 1) * span) :: real)"
    by (simp add: algebra_simps)
  finally have "(of_int T :: real) < of_int ((2 * k - 1) * span)" using T by simp
  then have "T < (2 * k - 1) * span" by (simp only: of_int_less_iff)
  then have "T + 1 \<le> (2 * k - 1) * span" by simp
  then have "(of_int (T + 1) :: real) \<le> of_int ((2 * k - 1) * span)" by (simp only: of_int_le_iff)
  then have "t * (2 * of_int span) + 1 \<le> (of_int k - 1 / 2) * (2 * of_int span)"
    using T by (simp add: algebra_simps)
  then have "(t + 1 / (2 * of_int span)) * (2 * of_int span)
      \<le> (of_int k - 1 / 2) * (2 * of_int span)"
    using pos by (simp add: algebra_simps)
  then have "t + 1 / (2 * of_int span) \<le> of_int k - 1 / 2"
    using pos by (simp only: mult_le_cancel_right_pos)
  moreover have "(1::real) / 12000 \<le> 1 / (2 * of_int span)"
    using span by (intro divide_left_mono) simp_all
  ultimately show ?thesis by linarith
qed

lemma half_gap_above:
  fixes t :: real and k T span :: int
  assumes span: "0 < span" "span \<le> 6000" and T: "t * (2 * of_int span) = of_int T"
    and gt: "of_int k + 1 / 2 < t"
  shows "of_int k + 1 / 2 + 1 / 12000 \<le> t"
proof -
  have pos: "(0::real) < 2 * of_int span" using span(1) by simp
  have "(of_int k + 1 / 2) * (2 * of_int span) < t * (2 * of_int span)"
    using gt pos by (rule mult_strict_right_mono)
  moreover have "(of_int k + 1 / 2) * (2 * of_int span) = (of_int ((2 * k + 1) * span) :: real)"
    by (simp add: algebra_simps)
  ultimately have "(of_int ((2 * k + 1) * span) :: real) < of_int T" using T by simp
  then have "(2 * k + 1) * span < T" by (simp only: of_int_less_iff)
  then have "(2 * k + 1) * span + 1 \<le> T" by simp
  then have "(of_int ((2 * k + 1) * span + 1) :: real) \<le> of_int T" by (simp only: of_int_le_iff)
  then have "(of_int k + 1 / 2) * (2 * of_int span) + 1 \<le> t * (2 * of_int span)"
    using T by (simp add: algebra_simps)
  then have "(of_int k + 1 / 2 + 1 / (2 * of_int span)) * (2 * of_int span)
      \<le> t * (2 * of_int span)"
    using pos by (simp add: algebra_simps)
  then have "of_int k + 1 / 2 + 1 / (2 * of_int span) \<le> t"
    using pos by (simp only: mult_le_cancel_right_pos)
  moreover have "(1::real) / 12000 \<le> 1 / (2 * of_int span)"
    using span by (intro divide_left_mono) simp_all
  ultimately show ?thesis by linarith
qed

lemma tenth_nearest:
  fixes span :: int and n :: nat
  assumes span: "0 < span" "span \<le> 6000" and n: "1 \<le> n" "n \<le> 3"
  shows "\<bar>of_int (js_round (fl (fl (60000 / fl (of_int span / of_nat n)) * 10)))
           - 600000 / (real_of_int span / real n)\<bar> \<le> 1 / 2"
proof -
  define a :: real where "a = of_int span / of_nat n"
  define t :: real where "t = 600000 / a"
  define C where "C = fl (fl (60000 / fl a) * 10)"
  define k where "k = js_round C"
  define T :: int where "T = 1200000 * int n"
  have a: "0 < a" using span n by (simp add: a_def)
  have "1 / 3 \<le> a"
  proof -
    have "(1::real) \<le> of_int span" using span by simp
    moreover have "real n \<le> 3" "0 < real n" using n by simp_all
    ultimately have "1 / 3 \<le> of_int span / real n"
      by (simp add: pos_le_divide_eq)
    then show ?thesis by (simp add: a_def)
  qed
  then have "600000 / a \<le> 600000 / (1 / 3)"
    by (intro divide_left_mono) (use a in simp_all)
  then have t: "0 < t" "t \<le> 1800000" using a by (simp_all add: t_def)
  have "t * (4 * unit_roundoff) \<le> 1800000 * (4 * unit_roundoff)"
    using t(2) by (intro mult_right_mono) (simp_all add: unit_roundoff_def)
  also have "\<dots> < 1 / 12000" by (simp add: unit_roundoff_def)
  finally have "t * (4 * unit_roundoff) < 1 / 12000" .
  moreover have "\<bar>C - t\<bar> \<le> t * (4 * unit_roundoff)"
    unfolding C_def t_def by (rule chain_error [OF a])
  ultimately have close: "\<bar>C - t\<bar> < 1 / 12000" by linarith
  have k: "of_int k \<le> C + 1 / 2" "C + 1 / 2 < of_int k + 1"
    unfolding k_def js_round_def by linarith+
  have T: "t * (2 * of_int span) = of_int T"
    using span n by (simp add: t_def a_def T_def field_simps)
  have up: "\<not> t < of_int k - 1 / 2"
  proof
    assume "t < of_int k - 1 / 2"
    from half_gap_below [OF span T this] show False using close k by linarith
  qed
  have down: "\<not> of_int k + 1 / 2 < t"
  proof
    assume "of_int k + 1 / 2 < t"
    from half_gap_above [OF span T this] show False using close k by linarith
  qed
  have "\<bar>of_int k - t\<bar> \<le> 1 / 2" using up down by linarith
  then show ?thesis by (simp only: k_def C_def t_def a_def)
qed

section \<open>Facts about the tap buffer\<close>

lemma most_recent_append:
  "most_recent n (most_recent n xs @ ys) = most_recent n (xs @ ys)"
proof -
  have "length xs + length ys - (length xs - n + n) + (length xs - n)
      = length xs + length ys - n"
    by arith
  then show ?thesis by (simp add: most_recent_def)
qed

lemma tapBpm_within_gap:
  assumes "length (tapTimesRef s) \<le> 4" and "tapTimesRef s = [] \<or> now - last (tapTimesRef s) \<le> 2000"
  shows "tapTimesRef (tapBpm s now) = most_recent 4 (tapTimesRef s @ [now])"
    and "bpm (tapBpm s now) =
      (if 2 \<le> length (tapTimesRef s @ [now])
       then round_tenth (newBpm (most_recent 4 (tapTimesRef s @ [now]))) else bpm s)"
proof -
  show "tapTimesRef (tapBpm s now) = most_recent 4 (tapTimesRef s @ [now])"
  proof (cases "length (tapTimesRef s) = 4")
    case True
    then show ?thesis using assms
      by (cases "tapTimesRef s") (auto simp: tapBpm_def Let_def most_recent_def)
  next
    case False
    then show ?thesis using assms
      by (auto simp: tapBpm_def Let_def most_recent_def)
  qed
  show "bpm (tapBpm s now) =
      (if 2 \<le> length (tapTimesRef s @ [now])
       then round_tenth (newBpm (most_recent 4 (tapTimesRef s @ [now]))) else bpm s)"
  proof (cases "length (tapTimesRef s) = 4")
    case True
    then show ?thesis using assms
      by (cases "tapTimesRef s") (auto simp: tapBpm_def Let_def most_recent_def)
  next
    case False
    then show ?thesis using assms
      by (auto simp: tapBpm_def Let_def most_recent_def)
  qed
qed

lemma length_tapTimes_tapBpm:
  assumes "length (tapTimesRef s) \<le> 4"
  shows "length (tapTimesRef (tapBpm s now)) \<le> 4 \<and> tapTimesRef (tapBpm s now) \<noteq> []
    \<and> last (tapTimesRef (tapBpm s now)) = now"
  using assms by (cases "tapTimesRef s") (auto simp: tapBpm_def Let_def)

lemma gaps_ok_last: "buf \<noteq> [] \<Longrightarrow> gaps_ok buf ts = gaps_ok [last buf] ts"
  by (cases ts) simp_all

lemma taps_window:
  assumes "length (tapTimesRef s) \<le> 4" and "gaps_ok (tapTimesRef s) ts"
  shows "tapTimesRef (taps s ts) = most_recent 4 (tapTimesRef s @ ts)
    \<and> bpm (taps s ts) =
        (if ts \<noteq> [] \<and> 2 \<le> length (tapTimesRef s @ ts)
         then round_tenth (newBpm (most_recent 4 (tapTimesRef s @ ts))) else bpm s)"
  using assms
proof (induction ts arbitrary: s)
  case Nil
  then show ?case by (simp add: most_recent_def)
next
  case (Cons t ts)
  let ?s' = "tapBpm s t"
  have gap: "tapTimesRef s = [] \<or> t - last (tapTimesRef s) \<le> 2000"
    using Cons.prems(2) by simp
  have step: "tapTimesRef ?s' = most_recent 4 (tapTimesRef s @ [t])"
    "bpm ?s' = (if 2 \<le> length (tapTimesRef s @ [t])
       then round_tenth (newBpm (most_recent 4 (tapTimesRef s @ [t]))) else bpm s)"
    using tapBpm_within_gap [OF Cons.prems(1) gap] by simp_all
  have len: "length (tapTimesRef ?s') \<le> 4" "tapTimesRef ?s' \<noteq> []" "last (tapTimesRef ?s') = t"
    using length_tapTimes_tapBpm [OF Cons.prems(1), of t] by simp_all
  have "gaps_ok (tapTimesRef ?s') ts"
    using Cons.prems(2) len gaps_ok_last [of "tapTimesRef ?s'" ts] by simp
  from Cons.IH [OF len(1) this]
  have ih: "tapTimesRef (taps ?s' ts) = most_recent 4 (tapTimesRef ?s' @ ts)"
    "bpm (taps ?s' ts) =
        (if ts \<noteq> [] \<and> 2 \<le> length (tapTimesRef ?s' @ ts)
         then round_tenth (newBpm (most_recent 4 (tapTimesRef ?s' @ ts))) else bpm ?s')"
    by simp_all
  have win: "most_recent 4 (tapTimesRef ?s' @ ts) = most_recent 4 (tapTimesRef s @ t # ts)"
    using most_recent_append [of 4 "tapTimesRef s @ [t]" ts] step(1) by simp
  show ?case
  proof (cases "ts = []")
    case True
    then show ?thesis using step by simp
  next
    case False
    then have a: "1 \<le> length ts" by (cases ts) simp_all
    have b: "1 \<le> length (tapTimesRef ?s')"
      using len(2) by (cases "tapTimesRef ?s'") simp_all
    have c: "2 \<le> length (tapTimesRef ?s' @ ts)"
      unfolding length_append using a b by arith
    have d: "2 \<le> length (tapTimesRef s @ t # ts)"
      using a by simp
    show ?thesis using ih win False c d by simp
  qed
qed

lemma most_recent_last:
  assumes "0 < n" and "xs \<noteq> []"
  shows "most_recent n xs \<noteq> [] \<and> last (most_recent n xs) = last xs"
proof -
  have "0 < length xs" using assms(2) by simp
  then have "length xs - n < length xs" using assms(1) by arith
  then show ?thesis by (simp add: most_recent_def last_drop)
qed

lemma intervals_telescope:
  "ts \<noteq> [] \<Longrightarrow> sum_list (intervals ts) = last ts - hd ts
     \<and> length (intervals ts) = length ts - 1"
  by (induction ts rule: intervals.induct) simp_all

lemma avgInterval_mean:
  "ts \<noteq> [] \<Longrightarrow> avgInterval ts = fl (of_int (last ts - hd ts) / of_nat (length ts - 1))"
  by (simp add: avgInterval_def intervals_telescope)

lemma steady_span:
  "ts \<noteq> [] \<Longrightarrow> steady ts \<Longrightarrow>
   hd ts \<le> last ts \<and> last ts - hd ts \<le> 2000 * int (length ts - 1)"
  by (induction ts rule: steady.induct) auto

lemma round_tenth_newBpm:
  assumes w: "w \<noteq> []" "length w \<le> 4" "2 \<le> length w" and st: "steady w" and lt: "hd w < last w"
  shows "\<exists>k::int. round_tenth (newBpm w) = Finite (fl (of_int k / 10))
     \<and> \<bar>real_of_int k / 10 - 60000 / (real_of_int (last w - hd w) / real (length w - 1))\<bar>
          \<le> 1 / 20"
proof -
  define span where "span = last w - hd w"
  define n where "n = length w - 1"
  define a :: real where "a = of_int span / of_nat n"
  define k where "k = js_round (fl (fl (60000 / fl a) * 10))"
  have n: "1 \<le> n" "n \<le> 3" using w by (simp_all add: n_def)
  have "last w - hd w \<le> 2000 * int (length w - 1)"
    using steady_span [OF w(1) st] by simp
  then have span: "0 < span" "span \<le> 6000"
    using lt n by (simp_all add: span_def n_def)
  have a: "0 < a" using span n by (simp add: a_def)
  have avg: "avgInterval w = fl a"
    using avgInterval_mean [OF w(1)] by (simp add: a_def span_def n_def)
  have "0 < fl a" using a by (rule fl_bounds(3))
  then have "round_tenth (newBpm w) = Finite (fl (of_int k / 10))"
    by (simp add: newBpm_def avg k_def)
  moreover have "\<bar>of_int k - 600000 / a\<bar> \<le> 1 / 2"
    unfolding k_def a_def by (rule tenth_nearest [OF span n])
  then have "\<bar>of_int k / 10 - 60000 / a\<bar> \<le> 1 / 20"
    by (simp add: abs_le_iff field_simps)
  ultimately show ?thesis
    unfolding a_def span_def n_def by blast
qed


lemma length_most_recent: "length (most_recent n xs) = min n (length xs)"
  by (simp add: most_recent_def)

lemmas fl_eval = fl_def fl_pos.simps fl_big.simps round_even_def Let_def

lemma tap_values:
  "round_tenth (newBpm [1000, 1500]) = Finite 120"
  "round_tenth (newBpm [1000, 1500, 2000]) = Finite 120"
  "round_tenth (newBpm [1000, 1500, 2000, 2500]) = Finite 120"
  "round_tenth (newBpm [1500, 2000, 2500, 3000]) = Finite 120"
  "round_tenth (newBpm [0, 1000]) = Finite 60"
  "round_tenth (newBpm [0, 1000, 2000]) = Finite 60"
  "round_tenth (newBpm [0, 1000, 2000, 3200]) = Finite (3954723422784717 / 70368744177664)"
  "round_tenth (newBpm [1000, 1000]) = PosInfinity"
  "round_tenth (newBpm [5500, 6100]) = Finite 100"
  "fl (281 / 5) = 3954723422784717 / 70368744177664"
  by (simp_all add: newBpm_def avgInterval_def js_round_def fl_eval)

section \<open>Facts about the BPM analysis\<close>

lemma find_peaks_increasing:
  "sorted_wrt (<) (find_peaks threshold minDistance xs i lastPeak)
   \<and> (\<forall>p \<in> set (find_peaks threshold minDistance xs i lastPeak). i \<le> p)"
proof (induction xs arbitrary: i lastPeak)
  case Nil
  then show ?case by simp
next
  case (Cons x xs)
  have later: "\<forall>p \<in> set (find_peaks threshold minDistance xs (Suc i) l). i < p" for l
    using Cons.IH [of "Suc i" l] by auto
  show ?case
    using Cons.IH [of "Suc i" lastPeak] Cons.IH [of "Suc i" "real i"] later
    by (auto simp: less_imp_le)
qed

lemma intervals_positive:
  "sorted_wrt (<) ts \<Longrightarrow> \<forall>d \<in> set (intervals ts). 0 < d"
  by (induction ts rule: intervals.induct) auto

lemma intervals_of_peaks_positive:
  "\<forall>d \<in> set (intervals (map int (peaks_of data sampleRate))). 0 < d"
proof -
  have "sorted_wrt (<) (peaks_of data sampleRate)"
    using find_peaks_increasing by (simp add: peaks_of_def Let_def)
  then have "sorted_wrt (<) (map int (peaks_of data sampleRate))"
    by (simp add: sorted_wrt_map)
  then show ?thesis by (rule intervals_positive)
qed

lemma rounded_nonneg: "0 \<le> interval \<Longrightarrow> 0 \<le> rounded interval"
proof -
  assume "0 \<le> interval"
  then have "(0::real) \<le> of_int interval / 500 + 1 / 2" by simp
  then have "0 \<le> js_round (of_int interval / 500)"
    unfolding js_round_def by linarith
  then show ?thesis by (simp add: rounded_def)
qed

lemma hist_add_map_fst:
  "map fst (hist_add k h) = (if k \<in> fst ` set h then map fst h else map fst h @ [k])"
  by (induction h) (force simp: image_iff)+

lemma hist_add_keys: "set (map fst (hist_add k h)) = insert k (set (map fst h))"
  unfolding hist_add_map_fst by auto

lemma histogram_keys:
  "set (map fst (foldl (\<lambda>h interval. hist_add (rounded interval) h) h0 ivs))
     = set (map fst h0) \<union> rounded ` set ivs"
proof (induction ivs arbitrary: h0)
  case Nil
  then show ?case by simp
next
  case (Cons iv ivs)
  show ?case
    unfolding foldl_Cons Cons.IH hist_add_keys by auto
qed

lemma entries_set: "set (entries h) = set h"
  by (auto simp: entries_def)

lemma pick_best_from:
  "pick_best es maxCount bestInterval = bestInterval
   \<or> pick_best es maxCount bestInterval \<in> set (map fst es)"
  by (induction es maxCount bestInterval rule: pick_best.induct) auto

lemma bestInterval_nonneg: "0 \<le> bestInterval_of (peaks_of data sampleRate)"
proof -
  let ?ivs = "intervals (map int (peaks_of data sampleRate))"
  have "set (map fst (entries (histogram_of ?ivs))) = fst ` set (histogram_of ?ivs)"
    by (simp add: entries_set)
  also have "\<dots> = rounded ` set ?ivs"
    using histogram_keys [of "[]" ?ivs] by (simp add: histogram_of_def)
  finally have keys: "set (map fst (entries (histogram_of ?ivs))) = rounded ` set ?ivs" .
  have "\<forall>k \<in> rounded ` set ?ivs. 0 \<le> k"
    using intervals_of_peaks_positive [of data sampleRate] rounded_nonneg by fastforce
  then show ?thesis
    using pick_best_from [of "entries (histogram_of ?ivs)" 0 0] keys
    unfolding bestInterval_of_def by auto
qed

lemma double_up_bounded:
  "0 < b \<Longrightarrow> 70 \<le> b * 2 ^ n \<Longrightarrow>
   \<exists>m. double_up b = Some (b * 2 ^ m) \<and> 70 \<le> b * 2 ^ m \<and> (\<forall>j < m. b * 2 ^ j < 70)"
proof (induction n arbitrary: b)
  case 0
  then have "double_up b = Some b" by (subst double_up.simps) simp
  then have "double_up b = Some (b * 2 ^ 0) \<and> 70 \<le> b * 2 ^ 0 \<and> (\<forall>j < (0::nat). b * 2 ^ j < 70)"
    using 0 by simp
  then show ?case by blast
next
  case (Suc n)
  show ?case
  proof (cases "b < 70")
    case False
    then have "double_up b = Some b" by (subst double_up.simps) simp
    then have "double_up b = Some (b * 2 ^ 0) \<and> 70 \<le> b * 2 ^ 0 \<and> (\<forall>j < (0::nat). b * 2 ^ j < 70)"
      using False by simp
    then show ?thesis by blast
  next
    case True
    have "0 < b * 2" "70 \<le> b * 2 * 2 ^ n" using Suc.prems by (simp_all add: mult.assoc)
    from Suc.IH [OF this] obtain m where
      m: "double_up (b * 2) = Some (b * 2 * 2 ^ m)" "70 \<le> b * 2 * 2 ^ m"
         "\<forall>j < m. b * 2 * 2 ^ j < 70"
      by blast
    have "double_up b = double_up (b * 2)" using True by (subst double_up.simps) simp
    then have a: "double_up b = Some (b * 2 ^ Suc m)" using m(1) by (simp add: mult.assoc)
    have b: "70 \<le> b * 2 ^ Suc m" using m(2) by (simp add: mult.assoc)
    have c: "b * 2 ^ j < 70" if "j < Suc m" for j
    proof (cases j)
      case 0
      then show ?thesis using True by simp
    next
      case (Suc i)
      then have "i < m" using that by simp
      then show ?thesis using m(3) Suc by (simp add: mult.assoc)
    qed
    show ?thesis using a b c by blast
  qed
qed

lemma double_up_terminates:
  assumes "0 < b"
  shows "\<exists>m. double_up b = Some (b * 2 ^ m) \<and> 70 \<le> b * 2 ^ m \<and> (\<forall>j < m. b * 2 ^ j < 70)"
proof -
  obtain n :: nat where "70 / b < 2 ^ n"
    using real_arch_pow [of 2 "70 / b"] by auto
  then have "70 \<le> b * 2 ^ n"
    using assms by (simp add: pos_divide_less_eq mult.commute)
  then show ?thesis using double_up_bounded [OF assms] by blast
qed



lemma analyse_total:
  assumes "0 < sampleRate"
  shows "\<exists>v. analyse data sampleRate = Some v"
proof (cases "length (peaks_of data sampleRate) < 10
    \<or> bestInterval_of (peaks_of data sampleRate) = 0")
  case True
  then show ?thesis by (auto simp: analyse_def Let_def)
next
  case False
  then have "0 < bestInterval_of (peaks_of data sampleRate)"
    using bestInterval_nonneg [of data sampleRate] by simp
  then have "0 < 60 / (of_int (bestInterval_of (peaks_of data sampleRate)) / sampleRate)"
    using assms by simp
  from double_up_terminates [OF this] obtain m where
    "double_up (60 / (of_int (bestInterval_of (peaks_of data sampleRate)) / sampleRate))
       = Some (60 / (of_int (bestInterval_of (peaks_of data sampleRate)) / sampleRate) * 2 ^ m)"
    by blast
  then show ?thesis using False by (simp add: analyse_def Let_def)
qed







section \<open>The composed rate\<close>

text \<open>
  C1. Whatever the deck state was, after the four factors are set to \<open>p\<close>, \<open>b\<close>, \<open>sr\<close> and
  \<open>r\<close> the composed playback rate is \<open>(p + b + (sr - 1))\<close> times \<open>-1\<close> when \<open>r\<close> is
  set and times \<open>1\<close> otherwise; \<open>toggleReverse\<close> negates the composed rate and leaves
  pitch, bend and sync rate as they were.
\<close>

theorem playbackRate_composed:
  "playbackRate (setIsReverse r (setSyncRate sr (setBend b (setPitch p s))))
     = (p + b + (sr - 1)) * (if r then - 1 else 1)
   \<and> playbackRate (toggleReverse s) = - playbackRate s
   \<and> pitch (toggleReverse s) = pitch s
   \<and> bend (toggleReverse s) = bend s
   \<and> syncRate (toggleReverse s) = syncRate s"
  by (simp add: playbackRate_def setIsReverse_def setSyncRate_def setBend_def setPitch_def
      toggleReverse_def)

section \<open>Tempo sync\<close>

text \<open>
  C7. \<open>syncToBpm target\<close> on a deck whose bpm is a finite \<open>b \<noteq> 0\<close> sets the sync rate to
  \<open>target / b\<close> and the pitch to 1 and changes nothing else, so that with bend 0 and
  forward direction the composed rate is the sync rate; \<open>syncToBpm 140\<close> at bpm 128 gives
  1.09375. (On a deck whose bpm is \<open>Infinity\<close> the quotient is 0.) On a deck whose bpm is
  0 it returns the state unchanged.
\<close>

theorem syncToBpm_ratio:
  "(bpm s = Finite b \<and> b \<noteq> 0 \<longrightarrow>
      syncToBpm s target = s\<lparr>syncRate := target / b, pitch := 1\<rparr>
      \<and> (bend s = 0 \<and> \<not> isReverse s \<longrightarrow>
           playbackRate (syncToBpm s target) = syncRate (syncToBpm s target)))
   \<and> (bpm s = Finite 128 \<longrightarrow> syncRate (syncToBpm s 140) = 1.09375)
   \<and> (bpm s = PosInfinity \<longrightarrow> syncToBpm s target = s\<lparr>syncRate := 0, pitch := 1\<rparr>)
   \<and> (bpm s = Finite 0 \<longrightarrow> syncToBpm s target = s)"
  by (simp add: syncToBpm_def playbackRate_def)

theorem syncToBpm_ratio_witness:
  "syncToBpm initialDeck 140 = initialDeck\<lparr>syncRate := 140 / 128, pitch := 1\<rparr>
   \<and> playbackRate (syncToBpm initialDeck 140) = 1.09375
   \<and> syncToBpm (initialDeck\<lparr>bpm := PosInfinity\<rparr>) 140
       = initialDeck\<lparr>bpm := PosInfinity, syncRate := 0\<rparr>
   \<and> syncToBpm (initialDeck\<lparr>bpm := Finite 0\<rparr>) 140 = initialDeck\<lparr>bpm := Finite 0\<rparr>"
  using syncToBpm_ratio [of initialDeck 128 140]
    syncToBpm_ratio [of "initialDeck\<lparr>bpm := PosInfinity\<rparr>" 0 140]
    syncToBpm_ratio [of "initialDeck\<lparr>bpm := Finite 0\<rparr>" 0 140]
  by (simp add: initialDeck_def playbackRate_def)

section \<open>Position under the sample clock\<close>

text \<open>
  C2. For every duration \<open>d > 0\<close>, every anchor position, every rate (negative rates
  included) and every elapsed time, the position \<open>p0 + elapsed * rate\<close> normalised by the
  loop \<open>while p < 0: p += d; p %= d\<close> lies in \<open>[0, d)\<close>; this is the position that the
  display loop reports while playing and the position that \<open>pause\<close> stores.
\<close>

theorem clock_position_in_range:
  assumes "0 < d"
  shows "(0 \<le> normalize (p0 + elapsed * rate) d \<and> normalize (p0 + elapsed * rate) d < d)
    \<and> (duration s = d \<and> isPlaying s \<and> audioContextRef s \<longrightarrow>
         currentTime (updateLoop s now)
           = normalize (pauseTimeRef s + (now - startTimeRef s) * playbackRate s) d
         \<and> 0 \<le> currentTime (updateLoop s now) \<and> currentTime (updateLoop s now) < d)
    \<and> (duration s = d \<and> isPlaying s \<and> audioContextRef s \<and> sourceNodeRef s \<noteq> None \<longrightarrow>
         pauseTimeRef (pause s now)
           = normalize (pauseTimeRef s + (now - startTimeRef s) * playbackRate s) d
         \<and> 0 \<le> pauseTimeRef (pause s now) \<and> pauseTimeRef (pause s now) < d)"
  using normalize_range [OF assms]
  by (simp add: updateLoop_def pause_def Let_def)

theorem clock_position_in_range_witness:
  "(0::real) < 100
   \<and> normalize (0 + 250 * (- 1)) 100 = 50
   \<and> currentTime (updateLoop (playingDeck\<lparr>isReverse := True\<rparr>) 250) = 50
   \<and> pauseTimeRef (pause (playingDeck\<lparr>isReverse := True\<rparr>) 250) = 50
   \<and> (0::real) \<le> 50 \<and> (50::real) < 100"
  using clock_position_in_range [of 100 0 250 "- 1" "playingDeck\<lparr>isReverse := True\<rparr>" 250]
  by (simp add: sample_simps updateLoop_def pause_def)

text \<open>
  C3. A deck paused at position 10 of a 100 second track, rate 1, is resumed at context
  time 12. \<open>play\<close> keeps the anchor position 10 and sets the anchor time to
  \<open>12 - 10\<close>, so at the resume instant the clock computes \<open>10 + 10 * 1 = 20\<close>: the display
  loop reports 20, and the re-anchoring effect stores 20 as the new anchor position.
\<close>

theorem resume_moves_playhead:
  "pauseTimeRef pausedDeck = 10 \<and> duration pausedDeck = 100 \<and> playbackRate pausedDeck = 1
   \<and> \<not> isPlaying pausedDeck
   \<and> currentTime (updateLoop pausedDeck 12) = 10
   \<and> startTimeRef (play pausedDeck 12) = 2
   \<and> pauseTimeRef (play pausedDeck 12) = 10
   \<and> currentTime (updateLoop (play pausedDeck 12) 12) = 20
   \<and> pauseTimeRef (rateEffect (play pausedDeck 12) 12) = 20"
  by (simp add: pausedDeck_eq loadedDeck_eq rateEffect_def updateLoop_def play_def initialDeck_def
      sampleBuffer_def playbackRate_def js_rem_def normalize.simps Let_def)

section \<open>Reversing and restoring the direction\<close>

text \<open>
  C5. On a playing deck whose last effect run recorded the current rate, \<open>toggleReverse\<close> at
  time \<open>t\<close> re-anchors at the position computed with the previous rate at \<open>t\<close>; toggling
  again after \<open>\<Delta>\<close> and letting a further \<open>\<Delta>\<close> elapse, the display loop reports the
  position it reported at \<open>t\<close>.
\<close>

theorem reverse_round_trip:
  assumes "isPlaying s" and "sourceNodeRef s \<noteq> None" and "audioContextRef s"
    and "lastPlaybackRateRef s = playbackRate s"
  shows "pauseTimeRef (rateEffect (toggleReverse s) t) = currentTime (updateLoop s t)
    \<and> startTimeRef (rateEffect (toggleReverse s) t) = t
    \<and> playbackRate (rateEffect (toggleReverse s) t) = - playbackRate s
    \<and> currentTime
         (updateLoop
            (rateEffect (toggleReverse (rateEffect (toggleReverse s) t)) (t + \<Delta>))
            (t + \<Delta> + \<Delta>))
       = currentTime (updateLoop s t)"
proof -
  define d where "d = duration s"
  define r where "r = playbackRate s"
  define p where "p = normalize (pauseTimeRef s + (t - startTimeRef s) * r) d"
  define s1 where "s1 = rateEffect (toggleReverse s) t"
  define s2 where "s2 = rateEffect (toggleReverse s1) (t + \<Delta>)"
  have now: "currentTime (updateLoop s t) = p"
    using assms(1,3) by (simp add: updateLoop_playing p_def r_def d_def)
  have "s1 = (toggleReverse s)\<lparr>pauseTimeRef := p, startTimeRef := t,
      sourceNodeRef := map_option (\<lambda>n. n\<lparr>node_playbackRate := - r\<rparr>) (sourceNodeRef s),
      lastPlaybackRateRef := - r\<rparr>"
    unfolding s1_def using assms
    by (simp add: rateEffect_playing toggleReverse_frame playbackRate_toggleReverse
        p_def r_def d_def)
  then have s1: "pauseTimeRef s1 = p" "startTimeRef s1 = t" "lastPlaybackRateRef s1 = - r"
    "isPlaying s1" "sourceNodeRef s1 \<noteq> None" "audioContextRef s1" "duration s1 = d"
    "playbackRate s1 = - r"
    using assms
    by (simp_all add: toggleReverse_frame playbackRate_frame playbackRate_toggleReverse
        r_def d_def)
  have "s2 = (toggleReverse s1)\<lparr>pauseTimeRef := normalize (p + \<Delta> * (- r)) d,
      startTimeRef := t + \<Delta>,
      sourceNodeRef := map_option (\<lambda>n. n\<lparr>node_playbackRate := r\<rparr>) (sourceNodeRef s1),
      lastPlaybackRateRef := r\<rparr>"
    unfolding s2_def using s1
    by (simp add: rateEffect_playing toggleReverse_frame playbackRate_toggleReverse)
  then have s2: "pauseTimeRef s2 = normalize (p + \<Delta> * (- r)) d" "startTimeRef s2 = t + \<Delta>"
    "isPlaying s2" "audioContextRef s2" "duration s2 = d" "playbackRate s2 = r"
    using s1
    by (simp_all add: toggleReverse_frame playbackRate_frame playbackRate_toggleReverse)
  have "currentTime (updateLoop s2 (t + \<Delta> + \<Delta>))
      = normalize (normalize (p + \<Delta> * (- r)) d + \<Delta> * r) d"
    using s2 by (simp add: updateLoop_playing)
  also have "\<dots> = normalize (p + \<Delta> * (- r) + \<Delta> * r) d"
    by (rule normalize_add_normalize)
  also have "\<dots> = normalize p d" by simp
  also have "\<dots> = p" unfolding p_def by (rule normalize_idem)
  finally have "currentTime (updateLoop s2 (t + \<Delta> + \<Delta>)) = p" .
  then show ?thesis
    using now s1 unfolding s2_def s1_def r_def by simp
qed

theorem reverse_round_trip_witness:
  "currentTime (updateLoop playingDeck 30) = 30
   \<and> pauseTimeRef (rateEffect (toggleReverse playingDeck) 30) = 30
   \<and> currentTime (updateLoop (rateEffect (toggleReverse playingDeck) 30) 80) = 80
   \<and> currentTime
       (updateLoop
          (rateEffect (toggleReverse (rateEffect (toggleReverse playingDeck) 30)) (30 + 50))
          (30 + 50 + 50)) = 30"
  using reverse_round_trip [of playingDeck 30 50]
  by (simp add: sample_simps updateLoop_def rateEffect_def toggleReverse_def setIsReverse_def)

section \<open>Loading resets the transport, not the controls\<close>

text \<open>
  C6, as stated, fails: loading a track on a deck whose pitch is 1.05, bend 0.1, loop on,
  effect ECHO and wet amount 0.5 leaves these five fields as they were, not at their
  defaults 1, 0, off, NONE and 0.
\<close>

theorem load_keeps_controls_counterexample:
  "pitch (loadFile tweakedDeck ''next.mp3'' (Inr sampleBuffer)) = 21 / 20
   \<and> pitch (loadFile tweakedDeck ''next.mp3'' (Inr sampleBuffer)) \<noteq> pitch initialDeck
   \<and> bend (loadFile tweakedDeck ''next.mp3'' (Inr sampleBuffer)) \<noteq> bend initialDeck
   \<and> isLooping (loadFile tweakedDeck ''next.mp3'' (Inr sampleBuffer)) \<noteq> isLooping initialDeck
   \<and> activeFX (loadFile tweakedDeck ''next.mp3'' (Inr sampleBuffer)) \<noteq> activeFX initialDeck
   \<and> fxWet (loadFile tweakedDeck ''next.mp3'' (Inr sampleBuffer)) \<noteq> fxWet initialDeck"
  by (simp add: tweakedDeck_eq loadFile_def loadFile_begin_def loadFile_decoded_def
      initialDeck_def)

text \<open>
  C6, amended. For every prior deck state with an audio context, a successful load sets the
  playing flag to false, the file name, the buffer and its duration, the loaded flag, the
  position and the anchor position to 0, the hot cues to all unset, the sync rate to 1,
  reverse to false, the recorded rate to 1, and the bpm to the pending default 128 with the
  analysing flag set; every other field, in particular pitch, bend, looping, active effect
  and wet amount, keeps its value.
\<close>

theorem loadFile_resets:
  assumes "audioContextRef s"
  shows "loadFile s name (Inr buf) =
      s\<lparr>isPlaying := False, fileName := Some name, bpm := Finite 128, isBpmAnalyzing := True,
        audioBuffer := Some buf, duration := buffer_duration buf, isLoaded := True,
        currentTime := 0, pauseTimeRef := 0, hotCues := [None, None, None], syncRate := 1,
        isReverse := False, lastPlaybackRateRef := 1\<rparr>
    \<and> currentTime (loadFile s name (Inr buf)) = 0
    \<and> hotCues (loadFile s name (Inr buf)) = [None, None, None]
    \<and> syncRate (loadFile s name (Inr buf)) = 1
    \<and> \<not> isReverse (loadFile s name (Inr buf))
    \<and> \<not> isPlaying (loadFile s name (Inr buf))
    \<and> bpm (loadFile s name (Inr buf)) = Finite 128
    \<and> isBpmAnalyzing (loadFile s name (Inr buf))
    \<and> pitch (loadFile s name (Inr buf)) = pitch s
    \<and> bend (loadFile s name (Inr buf)) = bend s
    \<and> isLooping (loadFile s name (Inr buf)) = isLooping s
    \<and> activeFX (loadFile s name (Inr buf)) = activeFX s
    \<and> fxWet (loadFile s name (Inr buf)) = fxWet s"
  using assms by (simp add: loadFile_def loadFile_begin_def loadFile_decoded_def)

theorem loadFile_resets_witness:
  "audioContextRef tweakedDeck
   \<and> currentTime (loadFile tweakedDeck ''next.mp3'' (Inr sampleBuffer)) = 0
   \<and> hotCues (loadFile tweakedDeck ''next.mp3'' (Inr sampleBuffer)) = [None, None, None]
   \<and> syncRate (loadFile tweakedDeck ''next.mp3'' (Inr sampleBuffer)) = 1
   \<and> \<not> isReverse (loadFile tweakedDeck ''next.mp3'' (Inr sampleBuffer))
   \<and> bpm (loadFile tweakedDeck ''next.mp3'' (Inr sampleBuffer)) = Finite 128
   \<and> pitch (loadFile tweakedDeck ''next.mp3'' (Inr sampleBuffer)) = 21 / 20
   \<and> fxWet (loadFile tweakedDeck ''next.mp3'' (Inr sampleBuffer)) = 1 / 2"
  using loadFile_resets [of tweakedDeck "''next.mp3''" sampleBuffer]
  by (simp add: tweakedDeck_eq initialDeck_def)

section \<open>Tap tempo keeps four timestamps\<close>

text \<open>
  C8. Starting from a buffer of at most four timestamps, after a non-empty run of taps none
  of which comes more than 2000 ms after the previous one, the buffer holds the most recent
  up-to-4 timestamps; with fewer than two of them the bpm is unchanged; with two or more
  the bpm is computed from the buffered timestamps as lines 223--225 do in double
  arithmetic. When the newest buffered tap has the timestamp of the oldest, the mean
  interval is zero and the bpm is \<open>Infinity\<close>. When the buffered timestamps do not decrease
  and the newest is later than the oldest, the bpm is the double nearest to \<open>k / 10\<close> for
  an integer \<open>k\<close>, and \<open>k / 10\<close> is within 0.05 of 60000 divided by the mean interval (the
  span from the oldest buffered tap to the newest over the number of intervals): the
  quotient rounded to one decimal. Four taps 500 ms apart give 120. A tap more than 2000 ms
  after the previous one replaces the buffer by that single tap and changes nothing else;
  the bpm is next set by the following tap that arrives within 2000 ms, from the two
  buffered taps.
\<close>

theorem tap_tempo:
  "(length (tapTimesRef s) \<le> 4 \<and> gaps_ok (tapTimesRef s) ts \<and> ts \<noteq> [] \<longrightarrow>
      tapTimesRef (taps s ts) = most_recent 4 (tapTimesRef s @ ts)
      \<and> (length (tapTimesRef s @ ts) < 2 \<longrightarrow> bpm (taps s ts) = bpm s)
      \<and> (2 \<le> length (tapTimesRef s @ ts) \<longrightarrow>
           bpm (taps s ts) = round_tenth (newBpm (most_recent 4 (tapTimesRef s @ ts)))
           \<and> avgInterval (most_recent 4 (tapTimesRef s @ ts))
               = fl (of_int (last ts - hd (most_recent 4 (tapTimesRef s @ ts)))
                     / of_nat (length (most_recent 4 (tapTimesRef s @ ts)) - 1))
           \<and> (last ts = hd (most_recent 4 (tapTimesRef s @ ts)) \<longrightarrow>
                 bpm (taps s ts) = PosInfinity)
           \<and> (steady (most_recent 4 (tapTimesRef s @ ts))
                \<and> hd (most_recent 4 (tapTimesRef s @ ts)) < last ts \<longrightarrow>
                 (\<exists>k::int. bpm (taps s ts) = Finite (fl (of_int k / 10))
                    \<and> \<bar>real_of_int k / 10
                         - 60000 / (real_of_int (last ts - hd (most_recent 4 (tapTimesRef s @ ts)))
                                    / real (length (most_recent 4 (tapTimesRef s @ ts)) - 1))\<bar>
                         \<le> 1 / 20))))
   \<and> (tapTimesRef s \<noteq> [] \<and> 2000 < now - last (tapTimesRef s) \<longrightarrow>
         tapBpm s now = s\<lparr>tapTimesRef := [now]\<rparr>
         \<and> (next - now \<le> 2000 \<longrightarrow>
              tapTimesRef (tapBpm (tapBpm s now) next) = [now, next]
              \<and> bpm (tapBpm (tapBpm s now) next) = round_tenth (newBpm [now, next])))"
proof -
  let ?w = "most_recent 4 (tapTimesRef s @ ts)"
  have reset: "tapTimesRef s \<noteq> [] \<and> 2000 < now - last (tapTimesRef s) \<Longrightarrow>
      tapBpm s now = s\<lparr>tapTimesRef := [now]\<rparr>"
    by (simp add: tapBpm_def)
  have again: "next - now \<le> 2000 \<Longrightarrow>
      tapTimesRef (tapBpm (s\<lparr>tapTimesRef := [now]\<rparr>) next) = [now, next]
      \<and> bpm (tapBpm (s\<lparr>tapTimesRef := [now]\<rparr>) next) = round_tenth (newBpm [now, next])"
    by (simp add: tapBpm_def Let_def)
  have window: "tapTimesRef (taps s ts) = ?w
      \<and> bpm (taps s ts) = (if 2 \<le> length (tapTimesRef s @ ts) then round_tenth (newBpm ?w) else bpm s)
      \<and> avgInterval ?w = fl (of_int (last ts - hd ?w) / of_nat (length ?w - 1))
      \<and> ?w \<noteq> [] \<and> last ?w = last ts"
    if h: "length (tapTimesRef s) \<le> 4" "gaps_ok (tapTimesRef s) ts" "ts \<noteq> []"
  proof -
    have ne: "?w \<noteq> []" and lw: "last ?w = last ts"
      using most_recent_last [of 4 "tapTimesRef s @ ts"] h(3) by simp_all
    show ?thesis
      using taps_window [OF h(1,2)] h(3) avgInterval_mean [OF ne] lw ne by simp
  qed
  have inf: "round_tenth (newBpm ?w) = PosInfinity" if "?w \<noteq> []" "last ?w = hd ?w"
    using avgInterval_mean [OF that(1)] that(2) by (simp add: newBpm_def fl_def)
  have fin: "\<exists>k::int. round_tenth (newBpm ?w) = Finite (fl (of_int k / 10))
        \<and> \<bar>real_of_int k / 10 - 60000 / (real_of_int (last ?w - hd ?w) / real (length ?w - 1))\<bar>
             \<le> 1 / 20"
    if "?w \<noteq> []" "2 \<le> length (tapTimesRef s @ ts)" "steady ?w" "hd ?w < last ?w"
  proof -
    have "length ?w \<le> 4" "2 \<le> length ?w"
      using that(2) by (simp_all add: length_most_recent)
    then show ?thesis using round_tenth_newBpm [OF that(1) _ _ that(3,4)] by blast
  qed
  show ?thesis
  proof (intro conjI impI)
    assume h: "length (tapTimesRef s) \<le> 4 \<and> gaps_ok (tapTimesRef s) ts \<and> ts \<noteq> []"
    then have wd: "tapTimesRef (taps s ts) = ?w"
      "bpm (taps s ts) = (if 2 \<le> length (tapTimesRef s @ ts) then round_tenth (newBpm ?w) else bpm s)"
      "avgInterval ?w = fl (of_int (last ts - hd ?w) / of_nat (length ?w - 1))"
      "?w \<noteq> []" "last ?w = last ts"
      using window by simp_all
    show "tapTimesRef (taps s ts) = ?w" by (rule wd(1))
    show "bpm (taps s ts) = bpm s" if "length (tapTimesRef s @ ts) < 2"
      using wd(2) that by simp
    show "bpm (taps s ts) = round_tenth (newBpm ?w)" if "2 \<le> length (tapTimesRef s @ ts)"
      using wd(2) that by simp
    show "avgInterval ?w = fl (of_int (last ts - hd ?w) / of_nat (length ?w - 1))"
      by (rule wd(3))
    show "bpm (taps s ts) = PosInfinity"
      if "2 \<le> length (tapTimesRef s @ ts)" "last ts = hd ?w"
      using wd(2,4,5) that inf by simp
    show "\<exists>k::int. bpm (taps s ts) = Finite (fl (of_int k / 10))
        \<and> \<bar>real_of_int k / 10 - 60000 / (real_of_int (last ts - hd ?w) / real (length ?w - 1))\<bar>
             \<le> 1 / 20"
      if "2 \<le> length (tapTimesRef s @ ts)" "steady ?w \<and> hd ?w < last ts"
      using fin [OF wd(4) that(1)] that wd(2,5) by simp
  next
    assume g: "tapTimesRef s \<noteq> [] \<and> 2000 < now - last (tapTimesRef s)"
    show "tapBpm s now = s\<lparr>tapTimesRef := [now]\<rparr>" using reset [OF g] .
    show "tapTimesRef (tapBpm (tapBpm s now) next) = [now, next]" if "next - now \<le> 2000"
      using again [OF that] reset [OF g] by simp
    show "bpm (tapBpm (tapBpm s now) next) = round_tenth (newBpm [now, next])"
      if "next - now \<le> 2000"
      using again [OF that] reset [OF g] by simp
  qed
qed

theorem tap_tempo_witness:
  "length (tapTimesRef initialDeck) \<le> 4
   \<and> gaps_ok (tapTimesRef initialDeck) [1000, 1500, 2000, 2500, 3000]
   \<and> tapTimesRef (taps initialDeck [1000, 1500, 2000, 2500, 3000]) = [1500, 2000, 2500, 3000]
   \<and> bpm (taps initialDeck [1000, 1500, 2000, 2500]) = Finite 120
   \<and> steady [0, 1000, 2000, 3200]
   \<and> bpm (taps initialDeck [0, 1000, 2000, 3200]) = Finite (fl (562 / 10))
   \<and> fl (562 / 10) = 3954723422784717 / 70368744177664
   \<and> bpm (taps initialDeck [1000]) = bpm initialDeck
   \<and> bpm (taps initialDeck [1000, 1000]) = PosInfinity
   \<and> tapBpm (taps initialDeck [1000, 1500, 2000, 2500]) 5500
       = (taps initialDeck [1000, 1500, 2000, 2500])\<lparr>tapTimesRef := [5500]\<rparr>
   \<and> bpm (tapBpm (taps initialDeck [1000, 1500, 2000, 2500]) 5500) = Finite 120
   \<and> bpm (tapBpm (tapBpm (taps initialDeck [1000, 1500, 2000, 2500]) 5500) 6100) = Finite 100"
  using tap_tempo [of initialDeck "[1000, 1500, 2000, 2500, 3000]"]
    tap_tempo [of initialDeck "[1000, 1500, 2000, 2500]"]
    tap_tempo [of initialDeck "[0, 1000, 2000, 3200]"]
    tap_tempo [of initialDeck "[1000]"]
    tap_tempo [of initialDeck "[1000, 1000]"]
    tap_tempo [of "taps initialDeck [1000, 1500, 2000, 2500]" "[]" 5500 6100]
  by (simp add: initialDeck_def tapBpm_def Let_def most_recent_def tap_values)

section \<open>Seeking to the end of the track\<close>

text \<open>
  C4. A paused deck with a 100 second track is scrubbed to position 99; the pointer then
  moves 400 pixels to the left on a canvas 400 pixels wide, four seconds forward.
  \<open>handleScrubMove\<close> clamps the new time to the closed interval from 0 to the duration and
  calls \<open>seek\<close> with 100; \<open>seek\<close> stores 100 as the anchor position and reports it, and the
  display loop keeps reporting 100, which is not below the duration.
\<close>

theorem scrub_to_end_leaves_track:
  "duration pausedDeck = 100 \<and> \<not> isPlaying pausedDeck
   \<and> currentTime (updateLoop (seek pausedDeck 99 12) 13) = 99
   \<and> handleScrubMove (updateLoop (seek pausedDeck 99 12) 13) (- 400) 400 14
       = seek (updateLoop (seek pausedDeck 99 12) 13) 100 14
   \<and> duration (seek (updateLoop (seek pausedDeck 99 12) 13) 100 14) = 100
   \<and> currentTime (seek (updateLoop (seek pausedDeck 99 12) 13) 100 14) = 100
   \<and> pauseTimeRef (seek (updateLoop (seek pausedDeck 99 12) 13) 100 14) = 100
   \<and> currentTime (updateLoop (seek (updateLoop (seek pausedDeck 99 12) 13) 100 14) 15) = 100
   \<and> \<not> currentTime (updateLoop (seek (updateLoop (seek pausedDeck 99 12) 13) 100 14) 15)
         < duration (updateLoop (seek (updateLoop (seek pausedDeck 99 12) 13) 100 14) 15)"
  by (simp add: pausedDeck_eq loadedDeck_eq initialDeck_def sampleBuffer_def handleScrubMove_def
      seek_def updateLoop_def Let_def)

section \<open>BPM detection falls back to 128\<close>

text \<open>
  C9. \<open>detectBpm\<close> resolves with exactly 128 when a processing step fails and when fewer
  than 10 peaks are found in the filtered slice; for no input does it reject, and for a
  positive sample rate it always resolves with a number.
\<close>

theorem detectBpm_fallback:
  "detectBpm (Inl e) sampleRate = Some (Inr 128)
   \<and> (length (peaks_of data sampleRate) < 10 \<longrightarrow>
        detectBpm (Inr data) sampleRate = Some (Inr 128))
   \<and> detectBpm rendered sampleRate \<noteq> Some (Inl e')
   \<and> (0 < sampleRate \<longrightarrow> (\<exists>v. detectBpm rendered sampleRate = Some (Inr v)))"
proof -
  have a: "detectBpm (Inl e) sampleRate = Some (Inr 128)"
    by (simp add: detectBpm_def detectBpm_try_def)
  have b: "detectBpm (Inr data) sampleRate = Some (Inr 128)"
    if "length (peaks_of data sampleRate) < 10"
    using that by (simp add: detectBpm_def detectBpm_try_def analyse_def Let_def)
  have c: "detectBpm rendered sampleRate \<noteq> Some (Inl e')"
    by (simp add: detectBpm_def split: option.splits sum.splits)
  have d: "\<exists>v. detectBpm rendered sampleRate = Some (Inr v)" if pos: "0 < sampleRate"
  proof (cases rendered)
    case (Inl x)
    then show ?thesis by (simp add: detectBpm_def detectBpm_try_def)
  next
    case (Inr xs)
    obtain v where "analyse xs sampleRate = Some v"
      using analyse_total [OF pos] by blast
    then show ?thesis using Inr by (simp add: detectBpm_def detectBpm_try_def)
  qed
  show ?thesis using a b c d by blast
qed

theorem detectBpm_fallback_witness:
  "detectBpm (Inl AnalysisFailure) 44100 = Some (Inr 128)
   \<and> length (peaks_of [0, 1, 0, 1] 44100) < 10
   \<and> detectBpm (Inr [0, 1, 0, 1]) 44100 = Some (Inr 128)"
  using detectBpm_fallback [of AnalysisFailure 44100 "[0, 1, 0, 1]" "Inr [0, 1, 0, 1]"]
  by (simp add: peaks_of_def threshold_of_def Let_def)

section \<open>The detected tempo is folded into 70--180\<close>



end
